theory Spec2Isabelle
  imports Complex_Main
begin

section \<open>Python values and exceptions\<close>

text \<open>
  The configuration tree of \<^verbatim>\<open>fg21sim/configs/manager.py\<close> is a nested Python
  dictionary whose leaves are validated values. A dictionary is an association list
  (insertion order kept, as Python and ConfigObj keep it). A Python number, int or float,
  is taken with its exact value as a rational, so rounding of binary floating point is
  outside this development.
\<close>

datatype pyval =
    PNone
  | PBool bool
  | PNum rat
  | PStr string
  | PList "pyval list"
  | PDict "(string \<times> pyval) list"

type_synonym dict = "(string \<times> pyval) list"

text \<open>
  The exception classes that the module raises or lets through. The last two are named
  by the specification only; no definition below produces them.
\<close>

datatype error =
    ConfigError string
  | ConfigObjError string
  | OSError
  | TypeError
  | ZeroDivisionError
  | OtherError string
  | InvalidConfigError
  | KeyNotFoundError

definition bindE :: "error + 'a \<Rightarrow> ('a \<Rightarrow> error + 'b) \<Rightarrow> error + 'b" where
  "bindE r f = (case r of Inl e \<Rightarrow> Inl e | Inr v \<Rightarrow> f v)"

section \<open>Strings\<close>

text \<open>\<^verbatim>\<open>s.split(sep)\<close> for a separator of length one: never returns the empty list.\<close>

fun str_split :: "char \<Rightarrow> string \<Rightarrow> string list" where
  "str_split c [] = [[]]"
| "str_split c (x # xs) =
     (if x = c then [] # str_split c xs
      else (case str_split c xs of
              [] \<Rightarrow> [[x]]
            | w # ws \<Rightarrow> (x # w) # ws))"

text \<open>\<^verbatim>\<open>sep.join(xs)\<close>.\<close>

fun str_join :: "string \<Rightarrow> string list \<Rightarrow> string" where
  "str_join sep [] = []"
| "str_join sep [x] = x"
| "str_join sep (x # y # ys) = x @ sep @ str_join sep (y # ys)"

section \<open>The manager\<close>

text \<open>
  \<^verbatim>\<open>self._config\<close> is the merged configuration; \<^verbatim>\<open>self.userconfig\<close> is an attribute
  that exists only after a user configuration has been loaded (\<^verbatim>\<open>hasattr\<close> is the test
  for \<open>Some\<close>). The records written to the module's logger are kept in \<open>logged\<close>.
\<close>

datatype source = Filename string | Lines "string list"

datatype logrec =
    InfoLoadedDefault
  | InfoLoadedAdditional source
  | InfoLoadedUser string
  | WarnCannotConvert string

record manager =
  config :: dict
  userconfig :: "string option"
  logged :: "logrec list"

section \<open>Nested access\<close>

text \<open>
  \<^verbatim>\<open>dict.get(d, k)\<close>: the unbound method of \<^verbatim>\<open>dict\<close>. It raises TypeError when its
  receiver is not a dictionary and returns \<^verbatim>\<open>None\<close> for a key that is not there.
\<close>

fun dict_get :: "pyval \<Rightarrow> string \<Rightarrow> error + pyval" where
  "dict_get (PDict d) k = Inr (case map_of d k of None \<Rightarrow> PNone | Some v \<Rightarrow> v)"
| "dict_get _ k = Inl TypeError"

text \<open>\<^verbatim>\<open>functools.reduce(f, keys, init)\<close>, stopping at the first exception.\<close>

fun reduce :: "('a \<Rightarrow> 'b \<Rightarrow> error + 'a) \<Rightarrow> 'b list \<Rightarrow> 'a \<Rightarrow> error + 'a" where
  "reduce f [] acc = Inr acc"
| "reduce f (k # ks) acc = (case f acc k of Inl e \<Rightarrow> Inl e | Inr v \<Rightarrow> reduce f ks v)"

datatype keys = KStr string | KList "string list"

text \<open>
  \<^verbatim>\<open>getn(self, keys, sep="/")\<close>; the separator is a string of length one, as the
  docstring requires. \<open>key_path\<close> is the rebinding
  \<^verbatim>\<open>if isinstance(keys, str): keys = keys.split(sep)\<close>.
\<close>

definition key_path :: "keys \<Rightarrow> char \<Rightarrow> string list" where
  "key_path keys sep = (case keys of KStr s \<Rightarrow> str_split sep s | KList ks \<Rightarrow> ks)"

definition getn :: "keys \<Rightarrow> char \<Rightarrow> manager \<Rightarrow> error + pyval" where
  "getn keys sep m = reduce dict_get (key_path keys sep) (PDict (config m))"

text \<open>\<^verbatim>\<open>get(self, key, fallback=None)\<close>: one level, with a fallback.\<close>

definition get :: "string \<Rightarrow> pyval \<Rightarrow> manager \<Rightarrow> pyval" where
  "get key fallback m = (case map_of (config m) key of None \<Rightarrow> fallback | Some v \<Rightarrow> v)"

text \<open>
  The node of a tree at a key path, when every key on the way is there and every level
  on the way is a dictionary. This is the notion of position that the claims speak of;
  the code's own walk is \<open>getn\<close>.
\<close>

fun walk :: "pyval \<Rightarrow> string list \<Rightarrow> pyval option" where
  "walk v [] = Some v"
| "walk (PDict d) (k # ks) = (case map_of d k of None \<Rightarrow> None | Some v \<Rightarrow> walk v ks)"
| "walk _ (k # ks) = None"

section \<open>Merging\<close>

text \<open>\<^verbatim>\<open>d[key] = val\<close>: the key keeps its place when it is there, else it is appended.\<close>

fun dict_set :: "string \<Rightarrow> pyval \<Rightarrow> dict \<Rightarrow> dict" where
  "dict_set k v [] = [(k, v)]"
| "dict_set k v ((k', v') # d) = (if k' = k then (k, v) # d else (k', v') # dict_set k v d)"

text \<open>
  Modelled from the spec: \<^verbatim>\<open>self._config.merge(newconfig)\<close> is a method of the
  ConfigObj library, which is not part of the sources at hand. Section 4.3 of the
  specification describes it: the merge is deep and section-wise; each field present in
  the overlay replaces the corresponding value of the base; for each subsection the merge
  recurses; fields that the overlay does not have are left untouched in the base. The
  overlay's items are visited in order, and a value that is not a section on both sides
  replaces the base's value whole.
\<close>

fun merge :: "dict \<Rightarrow> dict \<Rightarrow> dict" where
  "merge base [] = base"
| "merge base ((k, v) # rest) =
     merge (dict_set k
              (case v of
                 PDict ov \<Rightarrow>
                   (case map_of base k of
                      Some (PDict b) \<Rightarrow> PDict (merge b ov)
                    | _ \<Rightarrow> v)
               | _ \<Rightarrow> v)
              base)
           rest"

section \<open>Reading, validating and merging a layer\<close>

text \<open>
  What the ConfigObj library reports after \<^verbatim>\<open>config.validate(validator,
  preserve_errors=True)\<close>: either \<^verbatim>\<open>True\<close>, or a structure that
  \<^verbatim>\<open>flatten_errors(config, results)\<close> turns into a list of triples
  \<^verbatim>\<open>(section_list, key, res)\<close>, where \<^verbatim>\<open>key\<close> may be \<^verbatim>\<open>None\<close> and
  \<^verbatim>\<open>res\<close> is \<^verbatim>\<open>False\<close> or an exception.
\<close>

datatype vres = ResFalse | ResError string

type_synonym flat_error = "string list \<times> string option \<times> vres"

datatype vresult = VTrue | VErrors "flat_error list"

text \<open>
  The two entry points of the library that the manager calls, for the schema that the
  constructor has loaded: \<^verbatim>\<open>ConfigObj(config, interpolation=False,
  configspec=self._configspec)\<close>, which parses a file or a list of lines, and
  \<^verbatim>\<open>validate\<close>, which returns its report together with the configuration as it has
  left it (coerced values, defaults filled in). Both may raise.
\<close>

record configobj =
  lib_ConfigObj :: "source \<Rightarrow> error + dict"
  lib_validate :: "dict \<Rightarrow> error + (vresult \<times> dict)"

definition dquote :: string where
  "dquote = [CHR 0x22]"

definition newline :: char where
  "newline = CHR 0x0A"

text \<open>One line of the report, as the loop body of \<^verbatim>\<open>_validate\<close> formats it.\<close>

fun error_line :: "flat_error \<Rightarrow> string" where
  "error_line (section_list, Some key, ResFalse) =
     ''key '' @ dquote @ key @ dquote @ '' in section '' @ dquote
       @ str_join '', '' section_list @ dquote @ '' is missing.''"
| "error_line (section_list, Some key, ResError res) =
     ''key '' @ dquote @ key @ dquote @ '' in section '' @ dquote
       @ str_join '', '' section_list @ dquote @ '' failed validation: '' @ res"
| "error_line (section_list, None, res) =
     ''section '' @ dquote @ str_join ''.'' section_list @ dquote @ '' is missing''"

text \<open>The loop \<^verbatim>\<open>error_msg += msg + "\n"\<close> over the flattened errors.\<close>

fun error_report :: "string \<Rightarrow> flat_error list \<Rightarrow> string" where
  "error_report error_msg [] = error_msg"
| "error_report error_msg (e # es) = error_report (error_msg @ error_line e @ [newline]) es"

text \<open>\<^verbatim>\<open>_validate(self, config)\<close>.\<close>

definition validate' :: "configobj \<Rightarrow> dict \<Rightarrow> error + dict" where
  "validate' lib cfg =
     (case lib_validate lib cfg of
        Inl (ConfigObjError msg) \<Rightarrow> Inl (ConfigError msg)
      | Inl e \<Rightarrow> Inl e
      | Inr (VTrue, cfg') \<Rightarrow> Inr cfg'
      | Inr (VErrors errs, cfg') \<Rightarrow> Inl (ConfigError (error_report [] errs)))"

text \<open>
  \<^verbatim>\<open>read_config(self, config)\<close>. The result pairs what the call returns or raises with
  the manager as the call leaves it.
\<close>

definition read_config :: "configobj \<Rightarrow> source \<Rightarrow> manager \<Rightarrow> (error + unit) \<times> manager" where
  "read_config lib cfg m =
     (case lib_ConfigObj lib cfg of
        Inl (ConfigObjError msg) \<Rightarrow> (Inl (ConfigError msg), m)
      | Inl e \<Rightarrow> (Inl e, m)
      | Inr newconfig \<Rightarrow>
          (case validate' lib newconfig of
             Inl e \<Rightarrow> (Inl e, m)
           | Inr newconfig' \<Rightarrow>
               (Inr (), m\<lparr>config := merge (config m) newconfig',
                          logged := logged m @ [InfoLoadedAdditional cfg]\<rparr>)))"

text \<open>
  The validated layer that a source yields: the value that \<^verbatim>\<open>read_config\<close> hands to
  \<^verbatim>\<open>merge\<close>.
\<close>

definition validated_layer :: "configobj \<Rightarrow> source \<Rightarrow> error + dict" where
  "validated_layer lib cfg = bindE (lib_ConfigObj lib cfg) (validate' lib)"

section \<open>The operating system\<close>

text \<open>
  What the module reads from its environment: the text of a file
  (\<^verbatim>\<open>open(f).read()\<close>, which may raise), the working directory, the variable
  \<^verbatim>\<open>HOME\<close>, and the home directories of the password database.
\<close>

record os_env =
  os_open_read :: "string \<Rightarrow> error + string"
  os_getcwd :: string
  os_environ_HOME :: "string option"
  os_pw_self :: "string option"
  os_pw_name :: "string \<Rightarrow> string option"

text \<open>\<^verbatim>\<open>posixpath.isabs\<close>, \<^verbatim>\<open>join\<close> of two paths and \<^verbatim>\<open>dirname\<close>.\<close>

definition isabs :: "string \<Rightarrow> bool" where
  "isabs s = (case s of [] \<Rightarrow> False | c # _ \<Rightarrow> c = CHR ''/'')"


definition join :: "string \<Rightarrow> string \<Rightarrow> string" where
  "join a b =
     (if isabs b then b
      else if a = [] \<or> last a = CHR ''/'' then a @ b
      else a @ ''/'' @ b)"



text \<open>\<^verbatim>\<open>posixpath.normpath\<close> and \<^verbatim>\<open>abspath\<close>.\<close>

fun norm_comps :: "bool \<Rightarrow> string list \<Rightarrow> string list \<Rightarrow> string list" where
  "norm_comps initial_slashes new_comps [] = new_comps"
| "norm_comps initial_slashes new_comps (cmp # comps) =
     (if cmp = [] \<or> cmp = ''.'' then norm_comps initial_slashes new_comps comps
      else if cmp \<noteq> ''..'' \<or> (\<not> initial_slashes \<and> new_comps = [])
                \<or> (new_comps \<noteq> [] \<and> last new_comps = ''..'')
      then norm_comps initial_slashes (new_comps @ [cmp]) comps
      else if new_comps \<noteq> [] then norm_comps initial_slashes (butlast new_comps) comps
      else norm_comps initial_slashes new_comps comps)"

definition normpath :: "string \<Rightarrow> string" where
  "normpath path =
     (if path = [] then ''.''
      else
        (let initial_slashes =
               (if isabs path then
                  (if take 2 path = ''//'' \<and> take 3 path \<noteq> ''///'' then 2 else 1)
                else (0::nat));
             comps = norm_comps (0 < initial_slashes) [] (str_split CHR ''/'' path);
             path' = replicate initial_slashes CHR ''/'' @ str_join ''/'' comps
         in if path' = [] then ''.'' else path'))"

definition abspath :: "os_env \<Rightarrow> string \<Rightarrow> string" where
  "abspath os path =
     normpath (if \<not> isabs path then join (os_getcwd os) path else path)"

section \<open>The user configuration\<close>

text \<open>\<^verbatim>\<open>read_userconfig(self, userconfig)\<close>.\<close>

definition read_userconfig ::
  "configobj \<Rightarrow> os_env \<Rightarrow> string \<Rightarrow> manager \<Rightarrow> (error + unit) \<times> manager" where
  "read_userconfig lib os fname m =
     (case userconfig m of
        Some loaded \<Rightarrow>
          (Inl (ConfigError (''User configuration already loaded from '' @ dquote
                               @ loaded @ dquote)), m)
      | None \<Rightarrow>
          (case os_open_read os fname of
             Inl OSError \<Rightarrow>
               (Inl (ConfigError (''Cannot read config from '' @ dquote @ fname @ dquote)), m)
           | Inl e \<Rightarrow> (Inl e, m)
           | Inr content \<Rightarrow>
               (case read_config lib (Lines (str_split newline content)) m of
                  (Inl e, m') \<Rightarrow> (Inl e, m')
                | (Inr u, m') \<Rightarrow>
                    (Inr (), m'\<lparr>userconfig := Some (abspath os fname),
                                logged := logged m' @ [InfoLoadedUser fname]\<rparr>))))"

text \<open>
  \<^verbatim>\<open>__init__(self, configs=None)\<close>: the default layer is the validated empty
  configuration; then each given source is read in order. A constructor that raises
  leaves no manager.
\<close>

fun read_configs :: "configobj \<Rightarrow> source list \<Rightarrow> manager \<Rightarrow> (error + unit) \<times> manager" where
  "read_configs lib [] m = (Inr (), m)"
| "read_configs lib (c # cs) m =
     (case read_config lib c m of
        (Inl e, m') \<Rightarrow> (Inl e, m')
      | (Inr u, m') \<Rightarrow> read_configs lib cs m')"

definition init :: "configobj \<Rightarrow> source list \<Rightarrow> error + manager" where
  "init lib configs =
     (case validate' lib [] of
        Inl e \<Rightarrow> Inl e
      | Inr d \<Rightarrow>
          (case read_configs lib configs \<lparr>config = d, userconfig = None, logged = [InfoLoadedDefault]\<rparr> of
             (Inl e, m) \<Rightarrow> Inl e
           | (Inr u, m) \<Rightarrow> Inr m))"

section \<open>Paths\<close>


section \<open>Frequencies\<close>









section \<open>Notions used by the claims\<close>

text \<open>A Python dictionary has each key once, at every level of nesting.\<close>

fun wf_val :: "pyval \<Rightarrow> bool" where
  "wf_val (PDict d) = (distinct (map fst d) \<and> (\<forall>v \<in> snd ` set d. wf_val v))"
| "wf_val _ = True"

definition is_section :: "pyval \<Rightarrow> bool" where
  "is_section v = (case v of PDict d \<Rightarrow> True | _ \<Rightarrow> False)"

text \<open>
  A field is absent from a layer when its path leaves the layer at a key that a section
  on the path does not have. (A path that runs into a value which is not a section is
  neither present nor absent: the layer has another shape there.)
\<close>

fun absent :: "dict \<Rightarrow> string list \<Rightarrow> bool" where
  "absent d [] = False"
| "absent d (k # ks) =
     (case map_of d k of
        None \<Rightarrow> True
      | Some (PDict d') \<Rightarrow> absent d' ks
      | Some _ \<Rightarrow> False)"

text \<open>The value that one step of \<open>merge\<close> stores under a key.\<close>

definition merged_value :: "pyval option \<Rightarrow> pyval \<Rightarrow> pyval" where
  "merged_value old v =
     (case v of
        PDict ov \<Rightarrow> (case old of Some (PDict b) \<Rightarrow> PDict (merge b ov) | _ \<Rightarrow> v)
      | _ \<Rightarrow> v)"




section \<open>The validator\<close>

text \<open>
  Modelled from the spec: the validator is ConfigObj's \<^verbatim>\<open>validate\<close> together with
  \<^verbatim>\<open>flatten_errors\<close> and the schema files \<^verbatim>\<open>*.conf.spec\<close>, none of which is part of
  the sources at hand. Sections 3 and 4.2 of the specification describe it. A schema is a
  tree of named sections, each holding named field declarations; a field declaration has a
  type, an optional default and optional constraints.
\<close>

datatype ftype = TString | TInteger | TFloat | TBoolean | TStringList | TNumberList | TChoice


















section \<open>Example objects\<close>

text \<open>
  A small library instance: three sources parse to a \<^verbatim>\<open>frequency\<close> section, one is
  malformed, and validation rejects the step \<^verbatim>\<open>x\<close>.
\<close>

definition example_lib :: configobj where
  "example_lib =
     \<lparr>lib_ConfigObj = (\<lambda>src.
        if src = Lines [''[frequency''] then Inl (ConfigObjError ''Invalid line at line 1.'')
        else if src = Lines [''[frequency]'', ''step = 5'']
          then Inr [(''frequency'', PDict [(''step'', PStr ''5'')])]
        else if src = Lines [''[frequency]'', ''step = x'']
          then Inr [(''frequency'', PDict [(''step'', PStr ''x'')])]
        else if src = Lines [''[frequency]'', ''start = 2'']
          then Inr [(''frequency'', PDict [(''start'', PStr ''2'')])]
        else Inr []),
      lib_validate = (\<lambda>d.
        if walk (PDict d) [''frequency'', ''step''] = Some (PStr ''x'')
        then Inr (VErrors [([''frequency''], Some ''step'', ResError ''not a number'')], d)
        else Inr (VTrue, d))\<rparr>"

definition example_os :: os_env where
  "example_os =
     \<lparr>os_open_read = (\<lambda>f.
        if f = ''user.conf'' then Inr (''[frequency]'' @ [newline] @ ''step = 5'')
        else if f = ''bad.conf'' then Inr (''[frequency]'' @ [newline] @ ''step = x'')
        else Inl OSError),
      os_getcwd = ''/home/u'',
      os_environ_HOME = Some ''/home/u'',
      os_pw_self = Some ''/home/u'',
      os_pw_name = (\<lambda>n. None)\<rparr>"

definition example_manager :: manager where
  "example_manager =
     \<lparr>config = [(''frequency'', PDict [(''start'', PStr ''1''), (''step'', PStr ''3'')]),
                (''input'', PStr ''data/in.txt''), (''output'', PStr ''/tmp/out.txt'')],
      userconfig = None, logged = []\<rparr>"




section \<open>Properties of the string functions\<close>

lemma str_split_no_sep: "c \<notin> set w \<Longrightarrow> str_split c w = [w]"
  by (induction w) auto

lemma str_split_append_sep:
  "c \<notin> set w \<Longrightarrow> str_split c (w @ c # s) = w # str_split c s"
  by (induction w) auto

lemma str_split_join:
  "ks \<noteq> [] \<Longrightarrow> \<forall>k \<in> set ks. c \<notin> set k \<Longrightarrow> str_split c (str_join [c] ks) = ks"
proof (induction "[c]" ks rule: str_join.induct)
  case 1
  then show ?case by simp
next
  case (2 x)
  then show ?case by (simp add: str_split_no_sep)
next
  case (3 x y ys)
  then show ?case by (simp add: str_split_append_sep)
qed

section \<open>Claims about nested access\<close>

text \<open>
  C7. A key path given as one separator-joined string is looked up exactly as the list of
  keys it splits into; and a non-empty list of keys, none containing the separator, is
  looked up exactly as its joined string. For instance \<^verbatim>\<open>getn("a/b/c")\<close> and
  \<^verbatim>\<open>getn(["a","b","c"])\<close> agree on every merged tree.
\<close>

theorem getn_string_form_agrees:
  "getn (KStr s) sep m = getn (KList (str_split sep s)) sep m
   \<and> (ks \<noteq> [] \<and> (\<forall>k \<in> set ks. sep \<notin> set k) \<longrightarrow>
        getn (KStr (str_join [sep] ks)) sep m = getn (KList ks) sep m)
   \<and> getn (KStr ''a/b/c'') CHR ''/'' m = getn (KList [''a'', ''b'', ''c'']) CHR ''/'' m"
proof (intro conjI impI)
  show "getn (KStr s) sep m = getn (KList (str_split sep s)) sep m"
    by (simp add: getn_def key_path_def)
next
  assume "ks \<noteq> [] \<and> (\<forall>k \<in> set ks. sep \<notin> set k)"
  then have "str_split sep (str_join [sep] ks) = ks"
    by (simp add: str_split_join)
  then show "getn (KStr (str_join [sep] ks)) sep m = getn (KList ks) sep m"
    by (simp add: getn_def key_path_def)
next
  have "str_split CHR ''/'' ''a/b/c'' = [''a'', ''b'', ''c'']"
    by simp
  then show "getn (KStr ''a/b/c'') CHR ''/'' m = getn (KList [''a'', ''b'', ''c'']) CHR ''/'' m"
    by (simp add: getn_def key_path_def)
qed

theorem getn_string_form_agrees_witness:
  "getn (KStr (str_join ''/'' [''frequency'', ''step''])) CHR ''/'' example_manager
     = getn (KList [''frequency'', ''step'']) CHR ''/'' example_manager
   \<and> getn (KStr ''frequency/step'') CHR ''/'' example_manager = Inr (PStr ''3'')"
proof -
  have keys: "[''frequency'', ''step''] \<noteq> [] \<and> (\<forall>k \<in> set [''frequency'', ''step'']. CHR ''/'' \<notin> set k)"
    by simp
  have joined: "str_join ''/'' [''frequency'', ''step''] = ''frequency/step''"
    by simp
  have listed: "getn (KList [''frequency'', ''step'']) CHR ''/'' example_manager = Inr (PStr ''3'')"
    by (simp add: getn_def key_path_def example_manager_def)
  from getn_string_form_agrees [of _ "CHR ''/''" example_manager "[''frequency'', ''step'']",
      THEN conjunct2, THEN conjunct1, rule_format, OF keys]
  have "getn (KStr (str_join ''/'' [''frequency'', ''step''])) CHR ''/'' example_manager
     = getn (KList [''frequency'', ''step'']) CHR ''/'' example_manager" .
  with joined listed show ?thesis by simp
qed

lemma reduce_dict_get_error: "reduce dict_get ks v = Inl e \<Longrightarrow> e = TypeError"
proof (induction ks arbitrary: v)
  case Nil
  then show ?case by simp
next
  case (Cons k ks)
  then show ?case by (cases v) (auto split: option.splits)
qed

lemma reduce_dict_get_levels:
  "reduce dict_get ks v = Inr r \<Longrightarrow> n < length ks \<Longrightarrow> \<exists>d. walk v (take n ks) = Some (PDict d)"
proof (induction ks arbitrary: v n)
  case Nil
  then show ?case by simp
next
  case (Cons k ks)
  from Cons.prems(1) obtain d where v: "v = PDict d"
    by (cases v) auto
  show ?case
  proof (cases n)
    case 0
    with v show ?thesis by simp
  next
    case (Suc n')
    let ?v' = "case map_of d k of None \<Rightarrow> PNone | Some x \<Rightarrow> x"
    from Cons.prems v have r: "reduce dict_get ks ?v' = Inr r" by simp
    from Cons.prems Suc have "n' < length ks" by simp
    from Cons.IH [OF r this] obtain d' where w: "walk ?v' (take n' ks) = Some (PDict d')"
      by blast
    show ?thesis
    proof (cases "map_of d k")
      case None
      with w have "walk PNone (take n' ks) = Some (PDict d')" by simp
      then have False by (cases "take n' ks") auto
      then show ?thesis ..
    next
      case (Some x)
      with w v Suc show ?thesis by simp
    qed
  qed
qed

text \<open>
  C8 (as amended). When some intermediate level of a key path, that is the node at a proper
  non-empty prefix of the path, is absent from the merged tree or is not a section,
  \<open>getn\<close> raises TypeError. The code has no \<^verbatim>\<open>KeyNotFoundError\<close> and \<open>getn\<close> takes
  no sentinel.
\<close>

theorem getn_through_non_section_raises_TypeError:
  assumes "0 < n" and "n < length (key_path keys sep)"
    and "\<forall>d. walk (PDict (config m)) (take n (key_path keys sep)) \<noteq> Some (PDict d)"
  shows "getn keys sep m = Inl TypeError"
proof (cases "getn keys sep m")
  case (Inl e)
  then show ?thesis
    using reduce_dict_get_error [of "key_path keys sep" "PDict (config m)" e]
    by (simp add: getn_def)
next
  case (Inr r)
  then have "\<exists>d. walk (PDict (config m)) (take n (key_path keys sep)) = Some (PDict d)"
    using reduce_dict_get_levels [of "key_path keys sep" "PDict (config m)" r n] assms(2)
    by (simp add: getn_def)
  with assms(3) show ?thesis by blast
qed

theorem getn_through_non_section_raises_TypeError_witness:
  "getn (KList [''input'', ''name'']) CHR ''/'' example_manager = Inl TypeError"
  using getn_through_non_section_raises_TypeError
    [of 1 "KList [''input'', ''name'']" "CHR ''/''" example_manager]
  by (simp add: key_path_def example_manager_def)

text \<open>
  The claim as stated fails: a path through a level that is absent raises TypeError, which
  is not \<^verbatim>\<open>KeyNotFoundError\<close> and is not a returned value.
\<close>

theorem getn_KeyNotFoundError_counterexample:
  "getn (KStr ''logging/level'') CHR ''/'' example_manager = Inl TypeError
   \<and> getn (KStr ''logging/level'') CHR ''/'' example_manager \<noteq> Inl KeyNotFoundError"
  by (simp add: getn_def key_path_def example_manager_def)

section \<open>Loading a layer\<close>







lemma read_userconfig_already_loaded:
  "userconfig m = Some p \<Longrightarrow> \<exists>msg. read_userconfig lib os fname m = (Inl (ConfigError msg), m)"
  by (simp add: read_userconfig_def)


lemma read_config_userconfig:
  "read_config lib cfg m = (r, m') \<Longrightarrow> userconfig m' = userconfig m"
  by (auto simp: read_config_def split: sum.splits error.splits)

lemma read_configs_userconfig:
  "read_configs lib cs m = (r, m') \<Longrightarrow> userconfig m' = userconfig m"
proof (induction cs arbitrary: m)
  case Nil
  then show ?case by simp
next
  case (Cons c cs)
  obtain r1 m1 where step: "read_config lib c m = (r1, m1)" by (cases "read_config lib c m")
  then have u: "userconfig m1 = userconfig m" by (rule read_config_userconfig)
  show ?case
  proof (cases r1)
    case (Inl e)
    with Cons.prems step u show ?thesis by simp
  next
    case (Inr x)
    with Cons.prems step have "read_configs lib cs m1 = (r, m')" by simp
    from Cons.IH [OF this] u show ?thesis by simp
  qed
qed

lemma read_userconfig_success:
  "read_userconfig lib os fname m = (Inr u, m') \<Longrightarrow>
     userconfig m = None \<and> userconfig m' = Some (abspath os fname)
     \<and> (\<exists>content m''. os_open_read os fname = Inr content
           \<and> read_config lib (Lines (str_split newline content)) m = (Inr (), m''))"
  by (auto simp: read_userconfig_def split: sum.splits error.splits option.splits prod.splits)

lemma read_config_success:
  "validated_layer lib cfg = Inr L \<Longrightarrow>
     read_config lib cfg m =
       (Inr (), m\<lparr>config := merge (config m) L, logged := logged m @ [InfoLoadedAdditional cfg]\<rparr>)"
  by (auto simp: validated_layer_def bindE_def read_config_def split: sum.splits error.splits)

section \<open>Merge precedence\<close>

lemma map_of_dict_set: "map_of (dict_set k v d) = (map_of d)(k \<mapsto> v)"
  by (induction d) (auto simp: fun_eq_iff)

lemma merge_step: "merge base ((k, v) # rest) = merge (dict_set k (merged_value (map_of base k) v) base) rest"
  by (simp add: merged_value_def)

lemma map_of_merge:
  "distinct (map fst ov) \<Longrightarrow>
     map_of (merge base ov) k =
       (case map_of ov k of
          None \<Rightarrow> map_of base k
        | Some v \<Rightarrow> Some (merged_value (map_of base k) v))"
proof (induction ov arbitrary: base)
  case Nil
  then show ?case by simp
next
  case (Cons kv rest)
  obtain k' v' where kv: "kv = (k', v')" by (cases kv)
  from Cons.prems kv have d: "distinct (map fst rest)" and fresh: "k' \<notin> fst ` set rest"
    by auto
  from fresh have none: "map_of rest k' = None"
    by (simp add: map_of_eq_None_iff)
  show ?case
    unfolding kv merge_step
    by (simp add: Cons.IH [OF d] map_of_dict_set none del: merge.simps split: option.splits)
qed

lemma wf_val_child: "wf_val (PDict d) \<Longrightarrow> map_of d k = Some v \<Longrightarrow> wf_val v"
  by (auto dest!: map_of_SomeD)

lemma absent_walk: "absent d p \<Longrightarrow> walk (PDict d) p = None"
proof (induction p arbitrary: d)
  case Nil
  then show ?case by simp
next
  case (Cons k ks)
  then show ?case by (auto split: option.splits pyval.splits)
qed

lemma walk_scalar: "\<not> is_section x \<Longrightarrow> ks \<noteq> [] \<Longrightarrow> walk x ks = None"
  by (cases x; cases ks) (simp_all add: is_section_def)

lemma merge_present:
  "wf_val (PDict ov) \<Longrightarrow> walk (PDict ov) p = Some v \<Longrightarrow> \<not> is_section v \<Longrightarrow>
     walk (PDict (merge base ov)) p = Some v"
proof (induction p arbitrary: base ov)
  case Nil
  then show ?case by (auto simp: is_section_def)
next
  case (Cons k ks)
  from Cons.prems(2) obtain x where x: "map_of ov k = Some x" and wx: "walk x ks = Some v"
    by (auto split: option.splits)
  from Cons.prems(1) have dist: "distinct (map fst ov)" by simp
  have look: "map_of (merge base ov) k = Some (merged_value (map_of base k) x)"
    by (simp add: map_of_merge [OF dist] x)
  show ?case
  proof (cases "\<exists>sub b. x = PDict sub \<and> map_of base k = Some (PDict b)")
    case True
    then obtain sub b where sub: "x = PDict sub" and b: "map_of base k = Some (PDict b)" by blast
    from wf_val_child [OF Cons.prems(1) x] sub have "wf_val (PDict sub)" by simp
    from Cons.IH [OF this _ Cons.prems(3), of b] wx sub
    have "walk (PDict (merge b sub)) ks = Some v" by simp
    with look sub b show ?thesis by (simp add: merged_value_def)
  next
    case False
    then have "merged_value (map_of base k) x = x"
      by (auto simp: merged_value_def split: pyval.splits option.splits)
    with look wx show ?thesis by simp
  qed
qed

lemma merge_absent:
  "wf_val (PDict ov) \<Longrightarrow> absent ov p \<Longrightarrow>
     walk (PDict (merge base ov)) p = walk (PDict base) p"
proof (induction p arbitrary: base ov)
  case Nil
  then show ?case by simp
next
  case (Cons k ks)
  from Cons.prems(1) have dist: "distinct (map fst ov)" by simp
  show ?case
  proof (cases "map_of ov k")
    case None
    then show ?thesis by (simp add: map_of_merge [OF dist])
  next
    case (Some x)
    with Cons.prems(2) obtain sub where sub: "x = PDict sub" and ab: "absent sub ks"
      by (auto split: pyval.splits)
    from wf_val_child [OF Cons.prems(1) Some] sub have wfsub: "wf_val (PDict sub)" by simp
    from ab have ne: "ks \<noteq> []" by (cases ks) auto
    have look: "map_of (merge base ov) k = Some (merged_value (map_of base k) x)"
      by (simp add: map_of_merge [OF dist] Some)
    show ?thesis
    proof (cases "\<exists>b. map_of base k = Some (PDict b)")
      case True
      then obtain b where b: "map_of base k = Some (PDict b)" by blast
      from Cons.IH [OF wfsub ab, of b] look sub b show ?thesis
        by (simp add: merged_value_def)
    next
      case False
      then have mv: "merged_value (map_of base k) x = x"
        by (auto simp: merged_value_def sub split: pyval.splits option.splits)
      have "walk (PDict base) (k # ks) = None"
      proof (cases "map_of base k")
        case None
        then show ?thesis by simp
      next
        case (Some y)
        with False have "\<not> is_section y" by (cases y) (auto simp: is_section_def)
        from walk_scalar [OF this ne] Some show ?thesis by simp
      qed
      with look mv sub absent_walk [OF ab] show ?thesis by simp
    qed
  qed
qed


lemma walk_reduce: "walk v p = Some r \<Longrightarrow> reduce dict_get p v = Inr r"
proof (induction p arbitrary: v)
  case Nil
  then show ?case by simp
next
  case (Cons k ks)
  then show ?case by (cases v) (auto split: option.splits)
qed

text \<open>
  C1. Let two sources yield the validated layers \<open>L1\<close> and \<open>L2\<close>, and let them be
  merged in that order by \<^verbatim>\<open>read_config\<close>. Then both calls succeed, and in the resulting
  merged configuration every field present in \<open>L2\<close> has its value from \<open>L2\<close>, every
  field absent from \<open>L2\<close> has the value that the merged configuration held just before
  \<open>L2\<close> was merged, and so a field of \<open>L1\<close> survives where \<open>L2\<close> does not have
  it: the layer merged last wins. \<open>getn\<close> returns these values. The dictionaries of
  the layers have each key once, as Python's have.
\<close>

theorem latest_layer_wins:
  assumes "validated_layer lib src1 = Inr L1" and "validated_layer lib src2 = Inr L2"
    and "wf_val (PDict L1)" and "wf_val (PDict L2)"
  shows "\<exists>m1 m2. read_config lib src1 m0 = (Inr (), m1)
     \<and> read_config lib src2 m1 = (Inr (), m2)
     \<and> (\<forall>p v. walk (PDict L2) p = Some v \<and> \<not> is_section v \<longrightarrow>
            walk (PDict (config m2)) p = Some v \<and> getn (KList p) sep m2 = Inr v)
     \<and> (\<forall>p. absent L2 p \<longrightarrow> walk (PDict (config m2)) p = walk (PDict (config m1)) p)
     \<and> (\<forall>p v. absent L2 p \<and> walk (PDict L1) p = Some v \<and> \<not> is_section v \<longrightarrow>
            walk (PDict (config m2)) p = Some v \<and> getn (KList p) sep m2 = Inr v)"
  using assms
  by (auto simp: read_config_success merge_present merge_absent getn_def key_path_def
      intro!: walk_reduce)

theorem latest_layer_wins_witness:
  "\<exists>m1 m2. read_config example_lib (Lines [''[frequency]'', ''start = 2'']) example_manager
              = (Inr (), m1)
     \<and> read_config example_lib (Lines [''[frequency]'', ''step = 5'']) m1 = (Inr (), m2)
     \<and> walk (PDict (config m2)) [''frequency'', ''step''] = Some (PStr ''5'')
     \<and> walk (PDict (config m2)) [''frequency'', ''start''] = Some (PStr ''2'')"
proof -
  let ?L1 = "[(''frequency'', PDict [(''start'', PStr ''2'')])]"
  let ?L2 = "[(''frequency'', PDict [(''step'', PStr ''5'')])]"
  have l1: "validated_layer example_lib (Lines [''[frequency]'', ''start = 2'']) = Inr ?L1"
    by (simp add: validated_layer_def bindE_def validate'_def example_lib_def)
  have l2: "validated_layer example_lib (Lines [''[frequency]'', ''step = 5'']) = Inr ?L2"
    by (simp add: validated_layer_def bindE_def validate'_def example_lib_def)
  have w1: "wf_val (PDict ?L1)" and w2: "wf_val (PDict ?L2)"
    by simp_all
  from latest_layer_wins [OF l1 l2 w1 w2, of example_manager "CHR ''/''"] obtain m1 m2
    where r1: "read_config example_lib (Lines [''[frequency]'', ''start = 2'']) example_manager
                 = (Inr (), m1)"
      and r2: "read_config example_lib (Lines [''[frequency]'', ''step = 5'']) m1 = (Inr (), m2)"
      and present: "\<forall>p v. walk (PDict ?L2) p = Some v \<and> \<not> is_section v \<longrightarrow>
            walk (PDict (config m2)) p = Some v \<and> getn (KList p) CHR ''/'' m2 = Inr v"
      and kept: "\<forall>p v. absent ?L2 p \<and> walk (PDict ?L1) p = Some v \<and> \<not> is_section v \<longrightarrow>
            walk (PDict (config m2)) p = Some v \<and> getn (KList p) CHR ''/'' m2 = Inr v"
    by blast
  from present [rule_format, of "[''frequency'', ''step'']" "PStr ''5''"]
  have "walk (PDict (config m2)) [''frequency'', ''step''] = Some (PStr ''5'')"
    by (simp add: is_section_def)
  moreover from kept [rule_format, of "[''frequency'', ''start'']" "PStr ''2''"]
  have "walk (PDict (config m2)) [''frequency'', ''start''] = Some (PStr ''2'')"
    by (simp add: is_section_def)
  ultimately show ?thesis using r1 r2 by blast
qed

section \<open>Failed loads\<close>



section \<open>The user configuration is loaded once\<close>

text \<open>
  C3. Once \<^verbatim>\<open>read_userconfig\<close> has succeeded on a manager, any further
  \<^verbatim>\<open>read_userconfig\<close> call raises \<^verbatim>\<open>ConfigError\<close> and leaves the manager as it was: the
  merged configuration and the recorded path keep the values they had after the first
  call. This stays so after any number of further \<^verbatim>\<open>read_config\<close> calls, which change
  the merged configuration but never the recorded path.
\<close>

theorem second_read_userconfig_fails:
  assumes "read_userconfig lib os f1 m0 = (Inr (), m1)"
  shows "(\<exists>msg. read_userconfig lib' os' f2 m1 = (Inl (ConfigError msg), m1))
     \<and> userconfig m1 = Some (abspath os f1)
     \<and> (read_configs lib' cs m1 = (r, m2) \<longrightarrow>
          (\<exists>msg. read_userconfig lib' os' f2 m2 = (Inl (ConfigError msg), m2))
          \<and> userconfig m2 = Some (abspath os f1))"
proof -
  from read_userconfig_success [OF assms] have u1: "userconfig m1 = Some (abspath os f1)"
    by simp
  have later: "(\<exists>msg. read_userconfig lib' os' f2 m2 = (Inl (ConfigError msg), m2))
      \<and> userconfig m2 = Some (abspath os f1)" if "read_configs lib' cs m1 = (r, m2)"
  proof -
    from read_configs_userconfig [OF that] u1 have "userconfig m2 = Some (abspath os f1)"
      by simp
    with read_userconfig_already_loaded [of m2] show ?thesis by simp
  qed
  from u1 read_userconfig_already_loaded [of m1] later show ?thesis by simp
qed

theorem second_read_userconfig_fails_witness:
  "\<exists>m1. read_userconfig example_lib example_os ''user.conf'' example_manager = (Inr (), m1)
     \<and> (\<exists>msg. read_userconfig example_lib example_os ''user.conf'' m1 = (Inl (ConfigError msg), m1))
     \<and> userconfig m1 = Some ''/home/u/user.conf''"
proof -
  let ?m1 = "example_manager
      \<lparr>config := merge (config example_manager) [(''frequency'', PDict [(''step'', PStr ''5'')])],
       logged := logged example_manager @ [InfoLoadedAdditional (Lines [''[frequency]'', ''step = 5''])],
       userconfig := Some (abspath example_os ''user.conf''),
       logged := (logged example_manager @ [InfoLoadedAdditional (Lines [''[frequency]'', ''step = 5''])])
                   @ [InfoLoadedUser ''user.conf'']\<rparr>"
  have first: "read_userconfig example_lib example_os ''user.conf'' example_manager = (Inr (), ?m1)"
    by (simp add: read_userconfig_def read_config_def validate'_def example_lib_def example_os_def
        example_manager_def newline_def)
  have path: "abspath example_os ''user.conf'' = ''/home/u/user.conf''"
    by (simp add: abspath_def normpath_def join_def isabs_def example_os_def)
  from second_read_userconfig_fails [OF first, of example_lib example_os "''user.conf''"] path first
  show ?thesis by auto
qed








section \<open>Paths\<close>









section \<open>Frequencies\<close>
















section \<open>Validation\<close>


















end
